theory Spec2Isabelle
  imports Complex_Main "HOL-Library.Signed_Division"
begin

section \<open>Floating-point values\<close>

text \<open>
  \<^verbatim>\<open>qreal\<close> is \<^verbatim>\<open>double\<close>. The model keeps the special values of IEEE 754 arithmetic
  (the two infinities and not-a-number) and takes every finite value as the exact real:
  rounding is left out, and so is the sign of zero (every zero that \<^verbatim>\<open>printRanking\<close>
  divides by is a positive zero). Only the operations that the match controller uses are
  modelled.
\<close>

datatype qreal = NaN | NInf | Fin real | PInf

definition qreal_of_int :: "int \<Rightarrow> qreal" where
  "qreal_of_int i = Fin (real_of_int i)"

fun qdiv :: "qreal \<Rightarrow> qreal \<Rightarrow> qreal" where
  "qdiv (Fin a) (Fin b) =
     (if b \<noteq> 0 then Fin (a / b)
      else if a = 0 then NaN
      else if 0 < a then PInf else NInf)"
| "qdiv (Fin a) PInf = Fin 0"
| "qdiv (Fin a) NInf = Fin 0"
| "qdiv PInf (Fin b) = (if 0 \<le> b then PInf else NInf)"
| "qdiv NInf (Fin b) = (if 0 \<le> b then NInf else PInf)"
| "qdiv _ _ = NaN"

fun qsub :: "qreal \<Rightarrow> qreal \<Rightarrow> qreal" where
  "qsub (Fin a) (Fin b) = Fin (a - b)"
| "qsub (Fin a) PInf = NInf"
| "qsub (Fin a) NInf = PInf"
| "qsub PInf (Fin b) = PInf"
| "qsub PInf NInf = PInf"
| "qsub NInf (Fin b) = NInf"
| "qsub NInf PInf = NInf"
| "qsub _ _ = NaN"

fun qmul :: "qreal \<Rightarrow> qreal \<Rightarrow> qreal" where
  "qmul (Fin a) (Fin b) = Fin (a * b)"
| "qmul (Fin a) PInf = (if a = 0 then NaN else if 0 < a then PInf else NInf)"
| "qmul (Fin a) NInf = (if a = 0 then NaN else if 0 < a then NInf else PInf)"
| "qmul PInf (Fin b) = (if b = 0 then NaN else if 0 < b then PInf else NInf)"
| "qmul NInf (Fin b) = (if b = 0 then NaN else if 0 < b then NInf else PInf)"
| "qmul PInf PInf = PInf"
| "qmul NInf NInf = PInf"
| "qmul PInf NInf = NInf"
| "qmul NInf PInf = NInf"
| "qmul _ _ = NaN"

fun qneg :: "qreal \<Rightarrow> qreal" where
  "qneg (Fin a) = Fin (- a)"
| "qneg PInf = NInf"
| "qneg NInf = PInf"
| "qneg NaN = NaN"

text \<open>\<^verbatim>\<open>std::log\<close>: the logarithm of zero is minus infinity, that of a negative number
  is not a number.\<close>

fun qlog :: "qreal \<Rightarrow> qreal" where
  "qlog (Fin a) = (if a < 0 then NaN else if a = 0 then NInf else Fin (ln a))"
| "qlog PInf = PInf"
| "qlog NInf = NaN"
| "qlog NaN = NaN"

text \<open>\<^verbatim>\<open>operator<\<close> on doubles: every comparison with not-a-number is false.\<close>

fun qless :: "qreal \<Rightarrow> qreal \<Rightarrow> bool" where
  "qless (Fin a) (Fin b) = (a < b)"
| "qless NInf (Fin b) = True"
| "qless NInf PInf = True"
| "qless (Fin a) PInf = True"
| "qless _ _ = False"

section \<open>Machine integers\<close>

text \<open>
  \<^verbatim>\<open>int\<close> has 32 bits, in two's complement: the result of an addition or of a
  multiplication is the integer of the range from \<open>- 2 ^ 31\<close> to \<open>2 ^ 31 - 1\<close> that differs from
  the exact result by a multiple of \<open>2 ^ 32\<close>.
\<close>

definition int32 :: "int \<Rightarrow> int" where
  "int32 x = (x + 2147483648) mod 4294967296 - 2147483648"

section \<open>The data of a match\<close>

text \<open>
  \<^verbatim>\<open>Tournament::PlayerData\<close>, as far as the match controller reads it: the name of the
  player's builder and the three counters. The counters are \<^verbatim>\<open>int\<close>; what is computed
  from them is reduced to 32 bits by \<open>int32\<close>, below.
\<close>

record PlayerData =
  builder_name :: string
  wins :: int
  losses :: int
  draws :: int

datatype Sprt_Result = Continue | AcceptH0 | AcceptH1

record Sprt_Status =
  result :: Sprt_Result
  llr :: qreal
  lBound :: qreal
  uBound :: qreal

text \<open>
  What the match controller reads from its \<^verbatim>\<open>Tournament\<close>: \<^verbatim>\<open>playerCount()\<close> and
  \<^verbatim>\<open>playerAt(i)\<close> (the list of players), \<^verbatim>\<open>finishedGameCount()\<close>,
  \<^verbatim>\<open>finalGameCount()\<close>, \<^verbatim>\<open>sprt()->status()\<close> and \<^verbatim>\<open>errorString()\<close>.
\<close>

record Tournament =
  players :: "PlayerData list"
  finishedGameCount :: int
  finalGameCount :: int
  sprt_status :: Sprt_Status
  errorString :: string

definition playerCount :: "Tournament \<Rightarrow> nat" where
  "playerCount t = length (players t)"

record RankingData =
  name :: string
  games :: int
  score :: qreal
  draws :: qreal

text \<open>The lines written by \<^verbatim>\<open>qDebug\<close> and \<^verbatim>\<open>qWarning\<close>, one constructor for each format
  string, with the arguments of the format.\<close>

datatype line =
    StartedGame int int string string
  | FinishedGame int string string string
  | Score string string int int int qreal int
  | EloDifference qreal
  | RankingHeader
  | RankingRow int string qreal int qreal qreal
  | SprtSummary qreal qreal qreal string
  | Warning string
  | FinishedMatch

section \<open>QMultiMap\<close>

text \<open>
  \<^verbatim>\<open>QMultiMap<qreal, RankingData>\<close> is a list of pairs kept in the order of iteration,
  ascending in the key. \<^verbatim>\<open>insert\<close> walks past the items whose key is less than the new
  key and puts the new item there, before any item with the same key: items that share
  a key are iterated from the most recently inserted to the least recently inserted.
\<close>

type_synonym ('k, 'v) QMultiMap = "('k \<times> 'v) list"

fun insertMulti :: "qreal \<Rightarrow> 'v \<Rightarrow> (qreal, 'v) QMultiMap \<Rightarrow> (qreal, 'v) QMultiMap" where
  "insertMulti k v [] = [(k, v)]"
| "insertMulti k v ((k', v') # m) =
     (if qless k' k then (k', v') # insertMulti k v m else (k, v) # (k', v') # m)"

section \<open>printRanking\<close>

text \<open>The local variables of the loop body, lines 175 to 181 and 189 to 192.\<close>

definition score_of :: "PlayerData \<Rightarrow> int" where
  "score_of player = int32 (int32 (wins player * 2) + PlayerData.draws player)"

definition total_of :: "PlayerData \<Rightarrow> int" where
  "total_of player =
     int32 (int32 (int32 (wins player + losses player) + PlayerData.draws player) * 2)"

definition ratio_of :: "PlayerData \<Rightarrow> qreal" where
  "ratio_of player = qdiv (qreal_of_int (score_of player)) (qreal_of_int (total_of player))"

definition eloDiff_of :: "PlayerData \<Rightarrow> qreal" where
  "eloDiff_of player =
     qdiv (qmul (Fin (- 400)) (qlog (qsub (qdiv (Fin 1) (ratio_of player)) (Fin 1))))
          (qlog (Fin 10))"

definition data_of :: "PlayerData \<Rightarrow> RankingData" where
  "data_of player =
     \<lparr> name = builder_name player,
       games = total_of player sdiv 2,
       score = ratio_of player,
       draws = qdiv (qreal_of_int (int32 (PlayerData.draws player * 2)))
                 (qreal_of_int (total_of player)) \<rparr>"

text \<open>
  The first loop, over the players from index \<open>i\<close> on; \<open>n\<close> is \<^verbatim>\<open>playerCount()\<close>. It
  returns the lines printed and the ranking. \<^verbatim>\<open>continue\<close> goes to the next player,
  \<^verbatim>\<open>break\<close> leaves the loop.
\<close>

fun rankingLoop ::
  "nat \<Rightarrow> PlayerData list \<Rightarrow> (qreal, RankingData) QMultiMap
     \<Rightarrow> line list \<times> (qreal, RankingData) QMultiMap" where
  "rankingLoop n [] ranking = ([], ranking)"
| "rankingLoop n (player # rest) ranking =
     (if total_of player \<le> 0 then rankingLoop n rest ranking
      else if n = 2 then ([EloDifference (eloDiff_of player)], ranking)
      else rankingLoop n rest (insertMulti (qneg (eloDiff_of player)) (data_of player) ranking))"

text \<open>The second loop, over the ranking; \<open>rank\<close> is the counter before the row. It counts
  the rows, of which there are no more than \<^verbatim>\<open>playerCount()\<close>, an \<^verbatim>\<open>int\<close>: it does not
  overflow.\<close>

fun rankingRows :: "int \<Rightarrow> (qreal, RankingData) QMultiMap \<Rightarrow> line list" where
  "rankingRows rank [] = []"
| "rankingRows rank ((key, data) # m) =
     RankingRow (rank + 1) (name data) (qneg key) (games data)
       (qmul (score data) (Fin 100)) (qmul (RankingData.draws data) (Fin 100))
     # rankingRows (rank + 1) m"

definition sprtLines :: "Sprt_Status \<Rightarrow> line list" where
  "sprtLines sprtStatus =
     (if llr sprtStatus \<noteq> Fin 0 \<or> lBound sprtStatus \<noteq> Fin 0 \<or> uBound sprtStatus \<noteq> Fin 0
      then [SprtSummary (llr sprtStatus) (lBound sprtStatus) (uBound sprtStatus)
              (if result sprtStatus = AcceptH0 then '' - H0 was accepted''
               else if result sprtStatus = AcceptH1 then '' - H1 was accepted''
               else '''')]
      else [])"

definition printRanking :: "Tournament \<Rightarrow> line list" where
  "printRanking t =
     (let (eloLines, ranking) = rankingLoop (playerCount t) (players t) []
      in eloLines
         @ (if ranking \<noteq> [] then [RankingHeader] else [])
         @ rankingRows 0 ranking
         @ sprtLines (sprt_status t))"

text \<open>What the loop inserts into the ranking for a player: the key and the value of
  line 193.\<close>

definition entry_of :: "PlayerData \<Rightarrow> qreal \<times> RankingData" where
  "entry_of player = (qneg (eloDiff_of player), data_of player)"

section \<open>Concrete matches\<close>

definition mk_player :: "string \<Rightarrow> int \<Rightarrow> int \<Rightarrow> int \<Rightarrow> PlayerData" where
  "mk_player nm w l d = \<lparr> builder_name = nm, wins = w, losses = l, PlayerData.draws = d \<rparr>"

definition noSprt :: Sprt_Status where
  "noSprt = \<lparr> result = Continue, llr = Fin 0, lBound = Fin 0, uBound = Fin 0 \<rparr>"

definition tournament :: "PlayerData list \<Rightarrow> int \<Rightarrow> Sprt_Status \<Rightarrow> Tournament" where
  "tournament ps n st =
     \<lparr> players = ps, finishedGameCount = n, finalGameCount = n, sprt_status = st,
       errorString = [] \<rparr>"

lemmas example_defs = mk_player_def noSprt_def tournament_def

lemmas loop_defs =
  int32_def score_of_def total_of_def ratio_of_def eloDiff_of_def data_of_def qreal_of_int_def

section \<open>Reading the output\<close>

fun isSprtSummary :: "line \<Rightarrow> bool" where
  "isSprtSummary (SprtSummary l lb ub verdict) = True"
| "isSprtSummary _ = False"


text \<open>The rows of the ranking table among the lines, each with the arguments of its format
  but the rank: Elo difference, name, games, score and draws.\<close>

fun tableRows :: "line list \<Rightarrow> (qreal \<times> string \<times> int \<times> qreal \<times> qreal) list" where
  "tableRows [] = []"
| "tableRows (RankingRow r nm e g s d # ls) = (e, nm, g, s, d) # tableRows ls"
| "tableRows (l # ls) = tableRows ls"

text \<open>The row that the second loop prints for an item of the ranking, lines 205 to 211.\<close>

definition row_of_entry :: "qreal \<times> RankingData \<Rightarrow> qreal \<times> string \<times> int \<times> qreal \<times> qreal" where
  "row_of_entry e =
     (qneg (fst e), name (snd e), games (snd e), qmul (score (snd e)) (Fin 100),
      qmul (RankingData.draws (snd e)) (Fin 100))"

text \<open>The keys of a map in the order of iteration: no item has a key less than the key
  of an item before it.\<close>

definition ascending :: "(qreal \<times> 'v) list \<Rightarrow> bool" where
  "ascending m = sorted_wrt (\<lambda>a b. \<not> qless (fst b) (fst a)) m"

section \<open>The match controller\<close>

text \<open>
  The members of \<^verbatim>\<open>EngineMatch\<close> that the functions below read or write. An opening book
  is known by the address of its \<^verbatim>\<open>PolyglotBook\<close> object; the null pointer is \<open>None\<close>.
  \<^verbatim>\<open>m_books\<close> is the \<^verbatim>\<open>QMap\<close> from file names to books. The constructor starts with no
  book, the debug mode off and the rating interval 0.
\<close>

record EngineMatch =
  m_debug :: bool
  m_ratingInterval :: int
  m_books :: "string \<rightharpoonup> nat"

definition EngineMatch_init :: EngineMatch where
  "EngineMatch_init = \<lparr> m_debug = False, m_ratingInterval = 0, m_books = Map.empty \<rparr>"

text \<open>A negative interval is outside the contract of the function, which asserts
  \<^verbatim>\<open>interval >= 0\<close>: the model gives no state for it.\<close>

definition setRatingInterval :: "int \<Rightarrow> EngineMatch \<Rightarrow> EngineMatch option" where
  "setRatingInterval interval m =
     (if 0 \<le> interval then Some (m\<lparr> m_ratingInterval := interval \<rparr>) else None)"

subsection \<open>addOpeningBook\<close>

text \<open>
  What \<^verbatim>\<open>addOpeningBook\<close> does outside the match: \<^verbatim>\<open>new PolyglotBook\<close> takes the next
  address, \<^verbatim>\<open>PolyglotBook::read\<close> reads a file, \<^verbatim>\<open>qWarning\<close> reports a file that cannot
  be read. The events are kept in their order. Whether a file can be read is not decided
  by the match: every call gets it as the function \<open>readable\<close>.
\<close>

datatype book_event = ReadFile string | CantRead string

record World =
  next_book :: nat
  book_events :: "book_event list"

definition addOpeningBook ::
  "(string \<Rightarrow> bool) \<Rightarrow> string \<Rightarrow> EngineMatch \<Rightarrow> World \<Rightarrow> nat option \<times> EngineMatch \<times> World" where
  "addOpeningBook readable fileName m w =
     (if fileName = [] then (None, m, w)
      else case m_books m fileName of
        Some cached \<Rightarrow> (Some cached, m, w)
      | None \<Rightarrow>
          let book = next_book w;
              w' = w\<lparr> next_book := Suc book,
                      book_events := book_events w @ [ReadFile fileName] \<rparr>
          in if \<not> readable fileName
             then (None, m, w'\<lparr> book_events := book_events w' @ [CantRead fileName] \<rparr>)
             else (Some book, m\<lparr> m_books := (m_books m)(fileName \<mapsto> book) \<rparr>, w'))"

text \<open>A sequence of calls, each with the files that can be read at its time.\<close>

fun addOpeningBooks ::
  "((string \<Rightarrow> bool) \<times> string) list \<Rightarrow> EngineMatch \<Rightarrow> World \<Rightarrow> EngineMatch \<times> World" where
  "addOpeningBooks [] m w = (m, w)"
| "addOpeningBooks ((readable, fileName) # calls) m w =
     (case addOpeningBook readable fileName m w of
        (book, m', w') \<Rightarrow> addOpeningBooks calls m' w')"

subsection \<open>onGameFinished and onTournamentFinished\<close>

text \<open>What the two slots read from the finished game: the names of the two players and
  the verbose string of the result.\<close>

record ChessGame =
  white_name :: string
  black_name :: string
  result_string :: string

text \<open>What a slot does, in order: it prints a line, or it calls \<^verbatim>\<open>printRanking\<close>, which
  prints the lines given.\<close>

datatype report = Print line | Ranking "line list"

fun isRanking :: "report \<Rightarrow> bool" where
  "isRanking (Ranking ls) = True"
| "isRanking (Print l) = False"

definition onGameStarted :: "Tournament \<Rightarrow> ChessGame \<Rightarrow> int \<Rightarrow> report list" where
  "onGameStarted t game number =
     [Print (StartedGame number (finalGameCount t) (white_name game) (black_name game))]"

definition onGameFinished :: "EngineMatch \<Rightarrow> Tournament \<Rightarrow> ChessGame \<Rightarrow> int \<Rightarrow> report list" where
  "onGameFinished m t game number =
     [Print (FinishedGame number (white_name game) (black_name game) (result_string game))]
     @ (if playerCount t = 2
        then let fcp = players t ! 0; scp = players t ! 1;
                 totalResults = int32 (int32 (wins fcp + losses fcp) + PlayerData.draws fcp)
             in [Print (Score (builder_name fcp) (builder_name scp)
                          (wins fcp) (wins scp) (PlayerData.draws fcp)
                          (qdiv (qreal_of_int (int32 (int32 (wins fcp * 2) + PlayerData.draws fcp)))
                                (qreal_of_int (int32 (totalResults * 2))))
                          totalResults)]
        else [])
     @ (if m_ratingInterval m \<noteq> 0 \<and> finishedGameCount t smod m_ratingInterval m = 0
        then [Ranking (printRanking t)] else [])"

definition onTournamentFinished :: "EngineMatch \<Rightarrow> Tournament \<Rightarrow> report list" where
  "onTournamentFinished m t =
     (if m_ratingInterval m = 0 \<or> finishedGameCount t smod m_ratingInterval m \<noteq> 0
      then [Ranking (printRanking t)] else [])
     @ (if errorString t \<noteq> [] then [Print (Warning (errorString t))] else [])
     @ [Print FinishedMatch]"

text \<open>
  Modelled from the spec: the \<^verbatim>\<open>Tournament\<close>, whose code is not among the sources. It
  ``emits \<^verbatim>\<open>gameFinished(game, index)\<close> events as each game transitions'' and a terminal
  finished notification: in a run of \<open>n\<close> games the \<open>k\<close>-th \<^verbatim>\<open>gameFinished\<close> signal
  reaches the match when \<^verbatim>\<open>finishedGameCount()\<close> is \<open>k\<close>, and \<^verbatim>\<open>finished\<close> follows the
  last one. \<open>snap k\<close> is the rest of the tournament's state at the \<open>k\<close>-th signal, \<open>game k\<close>
  the game that finished and its number. The result has the output of each slot call.
\<close>

definition runTournament ::
  "EngineMatch \<Rightarrow> (nat \<Rightarrow> Tournament) \<Rightarrow> (nat \<Rightarrow> ChessGame \<times> int) \<Rightarrow> nat \<Rightarrow> report list list" where
  "runTournament m snap game n =
     map (\<lambda>k. onGameFinished m ((snap k)\<lparr> finishedGameCount := int k \<rparr>)
                 (fst (game k)) (snd (game k)))
         [1..<Suc n]
     @ [onTournamentFinished m ((snap n)\<lparr> finishedGameCount := int n \<rparr>)]"

section \<open>The sequential test\<close>

text \<open>
  Modelled from the spec: the SequentialTester (the class \<^verbatim>\<open>Sprt\<close>), whose code is not
  among the sources; the match controller only reads its status. The state is
  ``\<open>{llr, lowerBound, upperBound, verdict}\<close>''. Each finished game adds its
  log-likelihood ratio to \<open>llr\<close>; the specification does not give the probability model,
  so the contribution of a game is the argument \<open>d\<close>. ``After each update:
  \<open>llr \<le> lowerBound \<rightarrow> AcceptH0\<close>, \<open>llr \<ge> upperBound \<rightarrow> AcceptH1\<close>, otherwise
  \<open>Continuing\<close>. Verdict is sticky: once Accept* is reached it must not revert''.
  \<open>Continue\<close> stands for \<open>Continuing\<close>.
\<close>

record SequentialTestState =
  st_llr :: real
  lowerBound :: real
  upperBound :: real
  verdict :: Sprt_Result

definition sprt_update :: "real \<Rightarrow> SequentialTestState \<Rightarrow> SequentialTestState" where
  "sprt_update d s =
     (let l = st_llr s + d
      in s\<lparr> st_llr := l,
            verdict :=
              (if verdict s \<noteq> Continue then verdict s
               else if l \<le> lowerBound s then AcceptH0
               else if upperBound s \<le> l then AcceptH1
               else Continue) \<rparr>)"

fun sprt_updates :: "real list \<Rightarrow> SequentialTestState \<Rightarrow> SequentialTestState" where
  "sprt_updates [] s = s"
| "sprt_updates (d # ds) s = sprt_updates ds (sprt_update d s)"

section \<open>Concrete runs\<close>

definition World_init :: World where
  "World_init = \<lparr> next_book = 1, book_events = [] \<rparr>"

definition game_AB :: "nat \<Rightarrow> ChessGame \<times> int" where
  "game_AB k = (\<lparr> white_name = ''A'', black_name = ''B'', result_string = ''1/2-1/2'' \<rparr>, int k)"

section \<open>Facts about 32-bit integers\<close>

lemma int32_id: "- 2147483648 \<le> x \<Longrightarrow> x < 2147483648 \<Longrightarrow> int32 x = x"
  by (simp add: int32_def)

lemma int32_0: "int32 0 = 0"
  by (simp add: int32_def)

lemma int32_mod: "int32 a mod 4294967296 = a mod 4294967296"
  by (simp add: int32_def mod_diff_left_eq)

lemma int32_cong: "a mod 4294967296 = b mod 4294967296 \<Longrightarrow> int32 a = int32 b"
proof -
  assume "a mod 4294967296 = b mod 4294967296"
  then have "(a + 2147483648) mod 4294967296 = (b + 2147483648) mod 4294967296"
    by (rule mod_add_cong) (rule refl)
  then show ?thesis by (simp add: int32_def)
qed

lemma int32_add_left: "int32 (int32 a + b) = int32 (a + b)"
  by (rule int32_cong, rule mod_add_cong, rule int32_mod, rule refl)

lemma int32_mult_left: "int32 (int32 a * b) = int32 (a * b)"
  by (rule int32_cong, rule mod_mult_cong, rule int32_mod, rule refl)

lemma int32_high: "2147483648 \<le> x \<Longrightarrow> x < 6442450944 \<Longrightarrow> int32 x = x - 4294967296"
proof -
  assume a: "2147483648 \<le> x" "x < 6442450944"
  have "(x + 2147483648) mod 4294967296 = (x + 2147483648 - 4294967296) mod 4294967296"
    by (simp only: minus_mod_self2)
  also from a have "\<dots> = x + 2147483648 - 4294967296" by (intro mod_pos_pos_trivial) simp_all
  finally show ?thesis by (simp add: int32_def)
qed

lemma int32_even_pos:
  assumes "0 \<le> s" "s \<le> 2147483647" "0 < int32 (s * 2)"
  shows "0 < s \<and> int32 (s * 2) = s * 2"
proof (cases "s * 2 < 2147483648")
  case True
  with assms(1) have "int32 (s * 2) = s * 2" by (simp add: int32_id)
  with assms(3) show ?thesis by simp
next
  case False
  with assms(2) have "int32 (s * 2) = s * 2 - 4294967296" by (simp add: int32_high)
  with assms(2,3) show ?thesis by simp
qed

lemma total_of_eq:
  "total_of p = int32 ((wins p + losses p + PlayerData.draws p) * 2)"
  by (simp add: total_of_def int32_add_left int32_mult_left)

lemma score_of_eq: "score_of p = int32 (wins p * 2 + PlayerData.draws p)"
  by (simp add: score_of_def int32_add_left)

lemma total_of_no_games: "wins p + losses p + PlayerData.draws p = 0 \<Longrightarrow> total_of p = 0"
  by (simp add: total_of_eq int32_0)

lemma total_of_games:
  assumes "0 \<le> wins p" "0 \<le> losses p" "0 \<le> PlayerData.draws p"
    and "wins p + losses p + PlayerData.draws p \<le> 2147483647" and "0 < total_of p"
  shows "0 < wins p + losses p + PlayerData.draws p
    \<and> total_of p = (wins p + losses p + PlayerData.draws p) * 2"
  using assms int32_even_pos [of "wins p + losses p + PlayerData.draws p"]
  by (simp add: total_of_eq)

lemma no_overflow:
  assumes "0 \<le> wins p" "0 \<le> losses p" "0 \<le> PlayerData.draws p"
    and "wins p + losses p + PlayerData.draws p < 1073741824"
  shows "total_of p = (wins p + losses p + PlayerData.draws p) * 2"
    and "score_of p = wins p * 2 + PlayerData.draws p"
  using assms by (simp_all add: total_of_eq score_of_eq int32_id)

text \<open>A billion games won: the total wraps to a negative number, and the loop skips the
  player.\<close>

lemma total_of_wraps:
  "total_of (mk_player ''A'' 1073741824 0 0) = - 2147483648
   \<and> rankingLoop 3 [mk_player ''A'' 1073741824 0 0] [] = ([], [])"
  by (simp add: total_of_def int32_def mk_player_def)

section \<open>Facts about the two loops\<close>

lemma qneg_qneg: "qneg (qneg x) = x"
  by (cases x) simp_all

lemma qless_irrefl: "\<not> qless x x"
  by (cases x) simp_all

lemma rankingLoop_skip:
  "total_of p \<le> 0 \<Longrightarrow> rankingLoop n (ps @ p # qs) ranking = rankingLoop n (ps @ qs) ranking"
  by (induction ps arbitrary: ranking) simp_all

lemma rankingLoop_none_played:
  "\<forall>p \<in> set ps. total_of p \<le> 0 \<Longrightarrow> rankingLoop n ps ranking = ([], ranking)"
  by (induction ps arbitrary: ranking) simp_all

lemma set_insertMulti: "set (insertMulti k v m) = insert (k, v) (set m)"
  by (induction k v m rule: insertMulti.induct) auto

lemma rankingLoop_entries:
  "set (snd (rankingLoop n ps ranking))
     \<subseteq> set ranking \<union> entry_of ` {p \<in> set ps. 0 < total_of p}"
proof (induction ps arbitrary: ranking)
  case Nil
  show ?case by simp
next
  case (Cons p ps)
  show ?case
  proof (cases "total_of p \<le> 0")
    case True
    with Cons.IH [of ranking] show ?thesis by auto
  next
    case played: False
    show ?thesis
    proof (cases "n = 2")
      case True
      with played show ?thesis by simp
    next
      case False
      with played Cons.IH [of "insertMulti (qneg (eloDiff_of p)) (data_of p) ranking"]
      show ?thesis by (auto simp: set_insertMulti entry_of_def)
    qed
  qed
qed

lemma rankingRows_row:
  "RankingRow r nm e g s d \<in> set (rankingRows k m)
     \<Longrightarrow> \<exists>key data. (key, data) \<in> set m \<and> nm = name data \<and> e = qneg key \<and> g = games data"
  by (induction k m rule: rankingRows.induct) auto

lemma sprtLines_no_row: "RankingRow r nm e g s d \<notin> set (sprtLines st)"
  by (simp add: sprtLines_def)

lemma rankingLoop_lines:
  "fst (rankingLoop n ps ranking) = [] \<or> (\<exists>e. fst (rankingLoop n ps ranking) = [EloDifference e])"
  by (induction ps arbitrary: ranking) simp_all

lemma rankingLoop_no_row: "RankingRow r nm e g s d \<notin> set (fst (rankingLoop n ps ranking))"
  using rankingLoop_lines [of n ps ranking] by auto






lemma ratio_0: "0 < total_of p \<Longrightarrow> score_of p = 0 \<Longrightarrow> ratio_of p = Fin 0"
  by (simp add: ratio_of_def qreal_of_int_def)

lemma ratio_1: "0 < total_of p \<Longrightarrow> score_of p = total_of p \<Longrightarrow> ratio_of p = Fin 1"
  by (simp add: ratio_of_def qreal_of_int_def)

lemma eloDiff_ratio_0: "ratio_of p = Fin 0 \<Longrightarrow> eloDiff_of p = NInf"
  by (simp add: eloDiff_of_def)

lemma eloDiff_ratio_1: "ratio_of p = Fin 1 \<Longrightarrow> eloDiff_of p = PInf"
  by (simp add: eloDiff_of_def)

lemma rankingLoop_keeps:
  "n \<noteq> 2 \<Longrightarrow> e \<in> set ranking \<Longrightarrow> e \<in> set (snd (rankingLoop n ps ranking))"
  by (induction ps arbitrary: ranking) (simp_all add: set_insertMulti)

lemma rankingLoop_inserts:
  "n \<noteq> 2 \<Longrightarrow> p \<in> set ps \<Longrightarrow> 0 < total_of p
     \<Longrightarrow> entry_of p \<in> set (snd (rankingLoop n ps ranking))"
proof (induction ps arbitrary: ranking)
  case Nil
  then show ?case by simp
next
  case (Cons q ps)
  show ?case
  proof (cases "p = q")
    case True
    have "entry_of p \<in> set (insertMulti (qneg (eloDiff_of p)) (data_of p) ranking)"
      by (simp add: set_insertMulti entry_of_def)
    with Cons.prems True show ?thesis
      by (simp add: rankingLoop_keeps)
  next
    case False
    with Cons.prems have "p \<in> set ps" by simp
    with Cons.IH Cons.prems show ?thesis by simp
  qed
qed

lemma rankingRows_entry:
  "(key, data) \<in> set m \<Longrightarrow>
     \<exists>r. RankingRow r (name data) (qneg key) (games data)
            (qmul (score data) (Fin 100)) (qmul (RankingData.draws data) (Fin 100))
          \<in> set (rankingRows k m)"
proof (induction k m rule: rankingRows.induct)
  case (1 rank)
  then show ?case by simp
next
  case (2 rank key' data' m)
  show ?case
  proof (cases "(key, data) = (key', data')")
    case True
    then show ?thesis by auto
  next
    case False
    with "2.prems" have "(key, data) \<in> set m" by auto
    from "2.IH" [OF this] show ?thesis by auto
  qed
qed

lemma rankingLoop_break:
  "\<forall>q \<in> set ps. total_of q \<le> 0 \<Longrightarrow> 0 < total_of p
     \<Longrightarrow> rankingLoop 2 (ps @ p # qs) ranking = ([EloDifference (eloDiff_of p)], ranking)"
  by (induction ps arbitrary: ranking) simp_all

lemma printRanking_first_with_games:
  assumes "playerCount t = 2" "players t = ps @ p # qs" "\<forall>q \<in> set ps. total_of q \<le> 0"
    and "0 < total_of p"
  shows "printRanking t = EloDifference (eloDiff_of p) # sprtLines (sprt_status t)"
  using rankingLoop_break [OF assms(3,4), of qs "[]"] assms(1,2)
  by (simp add: printRanking_def)

lemma printRanking_row:
  assumes "playerCount t \<noteq> 2" "p \<in> set (players t)" "0 < total_of p"
  shows "\<exists>r. RankingRow r (builder_name p) (eloDiff_of p) (total_of p sdiv 2)
            (qmul (ratio_of p) (Fin 100))
            (qmul (qdiv (qreal_of_int (int32 (PlayerData.draws p * 2)))
                     (qreal_of_int (total_of p)))
               (Fin 100))
          \<in> set (printRanking t)"
proof -
  obtain ls rk where loop: "rankingLoop (playerCount t) (players t) [] = (ls, rk)"
    by (cases "rankingLoop (playerCount t) (players t) []")
  from rankingLoop_inserts [OF assms, of "[]"] loop
  have "(qneg (eloDiff_of p), data_of p) \<in> set rk" by (simp add: entry_of_def)
  from rankingRows_entry [OF this, of 0] obtain r where
    "RankingRow r (name (data_of p)) (qneg (qneg (eloDiff_of p))) (games (data_of p))
            (qmul (score (data_of p)) (Fin 100)) (qmul (RankingData.draws (data_of p)) (Fin 100))
          \<in> set (rankingRows 0 rk)" ..
  then have "RankingRow r (builder_name p) (eloDiff_of p) (total_of p sdiv 2)
            (qmul (ratio_of p) (Fin 100))
            (qmul (qdiv (qreal_of_int (int32 (PlayerData.draws p * 2)))
                     (qreal_of_int (total_of p)))
               (Fin 100))
          \<in> set (rankingRows 0 rk)"
    by (simp add: data_of_def qneg_qneg)
  with loop show ?thesis by (auto simp: printRanking_def)
qed

section \<open>Players without a finished game\<close>

text \<open>
  Claim C9. A player whose counters give \<open>wins + losses + draws = 0\<close> is skipped by
  \<^verbatim>\<open>printRanking\<close>: the loop does for the list with that player what it does for the
  list without them (for the same player count), so neither the ratio nor the Elo
  difference of that player is computed. Every ranking row printed belongs to a player
  whose counters do not sum to zero and whose total, as the loop computes it in 32 bits,
  is positive; when the counters of that player are not negative and their sum is an
  \<^verbatim>\<open>int\<close>, the player has finished at least one game and the row shows the number of
  their games. When no player has finished a game, nothing is printed but the lines of
  the SPRT status: no Elo difference, no header and no row.
\<close>

theorem printRanking_skips_players_without_games:
  "(wins p + losses p + PlayerData.draws p = 0 \<longrightarrow>
      rankingLoop n (ps @ p # qs) ranking = rankingLoop n (ps @ qs) ranking)
   \<and> (RankingRow r nm e g s d \<in> set (printRanking t) \<longrightarrow>
        (\<exists>q \<in> set (players t). wins q + losses q + PlayerData.draws q \<noteq> 0
            \<and> 0 < total_of q
            \<and> nm = builder_name q \<and> e = eloDiff_of q \<and> g = total_of q sdiv 2
            \<and> (0 \<le> wins q \<and> 0 \<le> losses q \<and> 0 \<le> PlayerData.draws q
                 \<and> wins q + losses q + PlayerData.draws q \<le> 2147483647
               \<longrightarrow> 0 < wins q + losses q + PlayerData.draws q
                   \<and> g = wins q + losses q + PlayerData.draws q)))
   \<and> ((\<forall>q \<in> set (players t'). wins q + losses q + PlayerData.draws q = 0) \<longrightarrow>
        printRanking t' = sprtLines (sprt_status t'))"
proof (intro conjI impI)
  assume "wins p + losses p + PlayerData.draws p = 0"
  then have "total_of p \<le> 0" by (simp add: total_of_no_games)
  then show "rankingLoop n (ps @ p # qs) ranking = rankingLoop n (ps @ qs) ranking"
    by (rule rankingLoop_skip)
next
  assume row: "RankingRow r nm e g s d \<in> set (printRanking t)"
  obtain ls rk where loop: "rankingLoop (playerCount t) (players t) [] = (ls, rk)"
    by (cases "rankingLoop (playerCount t) (players t) []")
  from rankingLoop_no_row [of r nm e g s d "playerCount t" "players t" "[]"] loop
  have "RankingRow r nm e g s d \<notin> set ls" by simp
  with row loop have "RankingRow r nm e g s d \<in> set (rankingRows 0 rk)"
    by (auto simp: printRanking_def sprtLines_no_row split: if_splits)
  then obtain key data
    where kd: "(key, data) \<in> set rk" "nm = name data" "e = qneg key" "g = games data"
    by (blast dest: rankingRows_row)
  from rankingLoop_entries [of "playerCount t" "players t" "[]"] loop kd(1)
  obtain q where q: "q \<in> set (players t)" "0 < total_of q" "(key, data) = entry_of q"
    by auto
  from q(3) kd have row_q: "nm = builder_name q" "e = eloDiff_of q" "g = total_of q sdiv 2"
    by (simp_all add: entry_of_def data_of_def qneg_qneg)
  from q(2) have some: "wins q + losses q + PlayerData.draws q \<noteq> 0"
    using total_of_no_games [of q] by auto
  have "0 < wins q + losses q + PlayerData.draws q
      \<and> g = wins q + losses q + PlayerData.draws q"
    if "0 \<le> wins q \<and> 0 \<le> losses q \<and> 0 \<le> PlayerData.draws q
        \<and> wins q + losses q + PlayerData.draws q \<le> 2147483647"
  proof -
    from that q(2) have "0 < wins q + losses q + PlayerData.draws q
      \<and> total_of q = (wins q + losses q + PlayerData.draws q) * 2"
      by (intro total_of_games) simp_all
    with row_q(3) show ?thesis by (simp add: signed_divide_int_def sgn_if)
  qed
  with q(1,2) row_q some
  show "\<exists>q \<in> set (players t). wins q + losses q + PlayerData.draws q \<noteq> 0
            \<and> 0 < total_of q
            \<and> nm = builder_name q \<and> e = eloDiff_of q \<and> g = total_of q sdiv 2
            \<and> (0 \<le> wins q \<and> 0 \<le> losses q \<and> 0 \<le> PlayerData.draws q
                 \<and> wins q + losses q + PlayerData.draws q \<le> 2147483647
               \<longrightarrow> 0 < wins q + losses q + PlayerData.draws q
                   \<and> g = wins q + losses q + PlayerData.draws q)"
    by blast
next
  assume "\<forall>q \<in> set (players t'). wins q + losses q + PlayerData.draws q = 0"
  then have "\<forall>q \<in> set (players t'). total_of q \<le> 0" by (simp add: total_of_no_games)
  then have "rankingLoop (playerCount t') (players t') [] = ([], [])"
    by (rule rankingLoop_none_played)
  then show "printRanking t' = sprtLines (sprt_status t')"
    by (simp add: printRanking_def)
qed

theorem printRanking_skips_players_without_games_witness:
  "wins (mk_player ''B'' 0 0 0) + losses (mk_player ''B'' 0 0 0)
     + PlayerData.draws (mk_player ''B'' 0 0 0) = 0
   \<and> rankingLoop 3 ([mk_player ''A'' 1 1 0] @ mk_player ''B'' 0 0 0 # [mk_player ''C'' 1 1 0]) []
       = rankingLoop 3 ([mk_player ''A'' 1 1 0] @ [mk_player ''C'' 1 1 0]) []
   \<and> RankingRow 1 ''C'' (Fin 0) 2 (Fin 50) (Fin 0)
       \<in> set (printRanking
           (tournament [mk_player ''A'' 1 1 0, mk_player ''B'' 0 0 0, mk_player ''C'' 1 1 0] 2 noSprt))
   \<and> (\<exists>q \<in> set (players
           (tournament [mk_player ''A'' 1 1 0, mk_player ''B'' 0 0 0, mk_player ''C'' 1 1 0] 2 noSprt)).
         0 < wins q + losses q + PlayerData.draws q \<and> 0 < total_of q \<and> ''C'' = builder_name q
         \<and> Fin 0 = eloDiff_of q \<and> 2 = total_of q sdiv 2
         \<and> 2 = wins q + losses q + PlayerData.draws q)
   \<and> players (tournament [mk_player ''A'' 0 0 0, mk_player ''B'' 0 0 0] 0 noSprt)
       = [mk_player ''A'' 0 0 0, mk_player ''B'' 0 0 0]
   \<and> wins (mk_player ''A'' 0 0 0) + losses (mk_player ''A'' 0 0 0)
       + PlayerData.draws (mk_player ''A'' 0 0 0) = 0
   \<and> printRanking (tournament [mk_player ''A'' 0 0 0, mk_player ''B'' 0 0 0] 0 noSprt) = []"
  using printRanking_skips_players_without_games
    [where p = "mk_player ''B'' 0 0 0" and n = 3 and ps = "[mk_player ''A'' 1 1 0]"
       and qs = "[mk_player ''C'' 1 1 0]" and ranking = "[]"
       and r = 1 and nm = "''C''" and e = "Fin 0" and g = 2 and s = "Fin 50" and d = "Fin 0"
       and t = "tournament [mk_player ''A'' 1 1 0, mk_player ''B'' 0 0 0, mk_player ''C'' 1 1 0] 2 noSprt"
       and t' = "tournament [mk_player ''A'' 0 0 0, mk_player ''B'' 0 0 0] 0 noSprt"]
  by (simp add: printRanking_def playerCount_def example_defs loop_defs sprtLines_def
        signed_divide_int_def)

section \<open>The SPRT summary line\<close>

lemma rankingRows_no_sprt: "filter isSprtSummary (rankingRows k m) = []"
  by (induction k m rule: rankingRows.induct) simp_all

lemma rankingLoop_no_sprt: "filter isSprtSummary (fst (rankingLoop n ps ranking)) = []"
  using rankingLoop_lines [of n ps ranking] by auto

text \<open>
  Claim C6. When the SPRT status is not trivial (\<open>llr\<close>, \<open>lBound\<close> and \<open>uBound\<close> are not
  all zero), \<^verbatim>\<open>printRanking\<close> prints exactly one SPRT line, with \<open>llr\<close> and the two
  bounds; the text appended to it is that of H0 exactly when the result is \<open>AcceptH0\<close>,
  that of H1 exactly when the result is \<open>AcceptH1\<close>, and nothing otherwise. When the three
  values are zero, no SPRT line is printed.
\<close>

theorem printRanking_sprt_summary:
  "(llr (sprt_status t) \<noteq> Fin 0 \<or> lBound (sprt_status t) \<noteq> Fin 0 \<or> uBound (sprt_status t) \<noteq> Fin 0
      \<longrightarrow> (\<exists>verdict.
            filter isSprtSummary (printRanking t)
              = [SprtSummary (llr (sprt_status t)) (lBound (sprt_status t))
                   (uBound (sprt_status t)) verdict]
            \<and> (verdict = '' - H0 was accepted'' \<longleftrightarrow> result (sprt_status t) = AcceptH0)
            \<and> (verdict = '' - H1 was accepted'' \<longleftrightarrow> result (sprt_status t) = AcceptH1)
            \<and> (verdict = [] \<longleftrightarrow> result (sprt_status t) = Continue)))
   \<and> (llr (sprt_status t') = Fin 0 \<and> lBound (sprt_status t') = Fin 0
        \<and> uBound (sprt_status t') = Fin 0
      \<longrightarrow> filter isSprtSummary (printRanking t') = [])"
proof -
  have *: "filter isSprtSummary (printRanking u) = sprtLines (sprt_status u)" for u
  proof -
    obtain ls rk where loop: "rankingLoop (playerCount u) (players u) [] = (ls, rk)"
      by (cases "rankingLoop (playerCount u) (players u) []")
    from rankingLoop_no_sprt [of "playerCount u" "players u" "[]"] loop
    have "filter isSprtSummary ls = []" by simp
    with loop show ?thesis
      by (simp add: printRanking_def rankingRows_no_sprt sprtLines_def)
  qed
  show ?thesis
    unfolding * by (cases "result (sprt_status t)") (simp_all add: sprtLines_def)
qed

theorem printRanking_sprt_summary_witness:
  "llr \<lparr> result = AcceptH1, llr = Fin 3, lBound = Fin (- 2), uBound = Fin 2 \<rparr> \<noteq> Fin 0
   \<and> filter isSprtSummary (printRanking (tournament [mk_player ''A'' 1 0 0, mk_player ''B'' 0 1 0] 1
           \<lparr> result = AcceptH1, llr = Fin 3, lBound = Fin (- 2), uBound = Fin 2 \<rparr>))
       = [SprtSummary (Fin 3) (Fin (- 2)) (Fin 2) '' - H1 was accepted'']
   \<and> llr noSprt = Fin 0 \<and> lBound noSprt = Fin 0 \<and> uBound noSprt = Fin 0
   \<and> filter isSprtSummary
         (printRanking (tournament [mk_player ''A'' 1 0 0, mk_player ''B'' 0 1 0] 1 noSprt)) = []"
  using printRanking_sprt_summary
    [where t = "tournament [mk_player ''A'' 1 0 0, mk_player ''B'' 0 1 0] 1
                  \<lparr> result = AcceptH1, llr = Fin 3, lBound = Fin (- 2), uBound = Fin 2 \<rparr>"
       and t' = "tournament [mk_player ''A'' 1 0 0, mk_player ''B'' 0 1 0] 1 noSprt"]
  by (auto simp: example_defs)

section \<open>Two players\<close>




section \<open>The scenario of six wins, two draws and two losses\<close>

lemma ln_7_3_lower: "11 * ln 10 < 30 * ln (7 / 3 :: real)"
proof -
  have "(10::real) ^ 11 < (7 / 3) ^ 30" by (simp add: power_divide)
  then have "ln ((10::real) ^ 11) < ln ((7 / 3) ^ 30)" by simp
  moreover have "ln ((10::real) ^ 11) = real 11 * ln 10" by (rule ln_realpow)
  moreover have "ln ((7 / 3 :: real) ^ 30) = real 30 * ln (7 / 3)" by (rule ln_realpow)
  ultimately show ?thesis by simp
qed

lemma ln_7_3_upper: "19 * ln (7 / 3 :: real) < 7 * ln 10"
proof -
  have "(7 / 3) ^ 19 < (10::real) ^ 7" by (simp add: power_divide)
  then have "ln ((7 / 3) ^ 19) < ln ((10::real) ^ 7)" by simp
  moreover have "ln ((10::real) ^ 7) = real 7 * ln 10" by (rule ln_realpow)
  moreover have "ln ((7 / 3 :: real) ^ 19) = real 19 * ln (7 / 3)" by (rule ln_realpow)
  ultimately show ?thesis by simp
qed


lemma eloDiff_scenario: "eloDiff_of (mk_player ''A'' 6 2 2) = Fin (400 * ln (7 / 3) / ln 10)"
proof -
  have "ln (3 / 7 :: real) = - ln (7 / 3)" by (simp add: ln_div)
  then show ?thesis by (simp add: loop_defs mk_player_def)
qed

text \<open>
  Claim C5. In a match of two players whose first player has 6 wins, 2 draws and 2 losses,
  the loop computes \<open>score = 14\<close>, \<open>total = 20\<close> and \<open>ratio = 0.7\<close>, and the Elo difference
  that is printed, \<open>-400 * log10 (1 / 0.7 - 1)\<close>, lies within one half of 147, so that the
  format \<^verbatim>\<open>%.0f\<close> shows 147.
\<close>

theorem scenario_six_wins_two_draws_two_losses:
  "score_of (mk_player ''A'' 6 2 2) = 14
   \<and> total_of (mk_player ''A'' 6 2 2) = 20
   \<and> ratio_of (mk_player ''A'' 6 2 2) = Fin (7 / 10)
   \<and> (\<exists>e. eloDiff_of (mk_player ''A'' 6 2 2) = Fin e \<and> 147 - 1 / 2 < e \<and> e < 147 + 1 / 2)
   \<and> printRanking (tournament [mk_player ''A'' 6 2 2, mk_player ''B'' 2 6 2] 10 noSprt)
       = [EloDifference (eloDiff_of (mk_player ''A'' 6 2 2))]"
proof (intro conjI)
  show "\<exists>e. eloDiff_of (mk_player ''A'' 6 2 2) = Fin e \<and> 147 - 1 / 2 < e \<and> e < 147 + 1 / 2"
  proof (intro exI conjI)
    show "eloDiff_of (mk_player ''A'' 6 2 2) = Fin (400 * ln (7 / 3) / ln 10)"
      by (rule eloDiff_scenario)
    have pos: "0 < ln (10::real)" by simp
    have "293 * ln 10 < 800 * ln (7 / 3 :: real)"
      using ln_7_3_lower pos by linarith
    with pos show "147 - 1 / 2 < 400 * ln (7 / 3 :: real) / ln 10"
      by (simp add: pos_less_divide_eq)
    have "800 * ln (7 / 3 :: real) < 295 * ln 10"
      using ln_7_3_upper pos by linarith
    with pos show "400 * ln (7 / 3 :: real) / ln 10 < 147 + 1 / 2"
      by (simp add: pos_divide_less_eq)
  qed
qed (simp_all add: int32_def score_of_def total_of_def ratio_of_def qreal_of_int_def
       example_defs printRanking_def playerCount_def sprtLines_def)

section \<open>The Elo difference at the ratios 0 and 1\<close>

text \<open>
  Claim C1, as the code has it. \<^verbatim>\<open>printRanking\<close> has no guard on the ratio. The only guard
  is \<^verbatim>\<open>total <= 0\<close>, on the total computed in 32 bits, which for counters that count games
  and whose sum is below \<open>2 ^ 30\<close> is twice the number of finished games. For every
  player that the loop reaches with a positive total it evaluates the formula, also when
  the ratio is 0 or 1. With IEEE 754 arithmetic no fault is raised there: at ratio 0 the
  division gives plus infinity and the Elo difference is minus infinity, at ratio 1 the
  logarithm of zero is minus infinity and the Elo difference is plus infinity. That value
  is what is reported. With exactly two players the loop reaches only the first player
  with a positive total: it prints the Elo difference of that player and breaks, the
  players after are not looked at. With another number of players every player with a
  positive total has a row with their Elo difference.
\<close>

theorem printRanking_elo_at_ratio_0_and_1:
  "(0 \<le> wins p \<and> 0 \<le> losses p \<and> 0 \<le> PlayerData.draws p
      \<and> wins p + losses p + PlayerData.draws p < 1073741824
    \<longrightarrow> total_of p = (wins p + losses p + PlayerData.draws p) * 2
        \<and> score_of p = wins p * 2 + PlayerData.draws p)
   \<and> (0 < total_of p \<longrightarrow>
       (score_of p = 0 \<longrightarrow> ratio_of p = Fin 0 \<and> eloDiff_of p = NInf)
       \<and> (score_of p = total_of p \<longrightarrow> ratio_of p = Fin 1 \<and> eloDiff_of p = PInf)
       \<and> (playerCount t = 2 \<and> players t = ps @ p # qs \<and> (\<forall>q \<in> set ps. total_of q \<le> 0)
          \<longrightarrow> printRanking t = EloDifference (eloDiff_of p) # sprtLines (sprt_status t)
              \<and> rankingLoop 2 (players t) [] = rankingLoop 2 (ps @ [p]) [])
       \<and> (playerCount t' \<noteq> 2 \<and> p \<in> set (players t') \<longrightarrow>
            (\<exists>r s d. RankingRow r (builder_name p) (eloDiff_of p) (total_of p sdiv 2) s d
                       \<in> set (printRanking t'))))"
proof (intro impI conjI)
  assume "0 \<le> wins p \<and> 0 \<le> losses p \<and> 0 \<le> PlayerData.draws p
      \<and> wins p + losses p + PlayerData.draws p < 1073741824"
  then show "total_of p = (wins p + losses p + PlayerData.draws p) * 2"
    and "score_of p = wins p * 2 + PlayerData.draws p"
    by (simp_all add: no_overflow)
next
  assume played: "0 < total_of p"
  {
    assume "score_of p = 0"
    with played show "ratio_of p = Fin 0" by (rule ratio_0)
    then show "eloDiff_of p = NInf" by (rule eloDiff_ratio_0)
  }
  {
    assume "score_of p = total_of p"
    with played show "ratio_of p = Fin 1" by (rule ratio_1)
    then show "eloDiff_of p = PInf" by (rule eloDiff_ratio_1)
  }
  {
    assume a: "playerCount t = 2 \<and> players t = ps @ p # qs \<and> (\<forall>q \<in> set ps. total_of q \<le> 0)"
    with played
    show "printRanking t = EloDifference (eloDiff_of p) # sprtLines (sprt_status t)"
      by (intro printRanking_first_with_games [of t ps p qs]) simp_all
    from a played rankingLoop_break [of ps p qs "[]"] rankingLoop_break [of ps p "[]" "[]"]
    show "rankingLoop 2 (players t) [] = rankingLoop 2 (ps @ [p]) []" by simp
  }
  {
    assume "playerCount t' \<noteq> 2 \<and> p \<in> set (players t')"
    with played printRanking_row [of t' p]
    show "\<exists>r s d. RankingRow r (builder_name p) (eloDiff_of p) (total_of p sdiv 2) s d
                     \<in> set (printRanking t')"
      by auto
  }
qed

theorem printRanking_elo_at_ratio_0_and_1_witness:
  "0 \<le> wins (mk_player ''A'' 1 0 0) \<and> 0 \<le> losses (mk_player ''A'' 1 0 0)
   \<and> 0 \<le> PlayerData.draws (mk_player ''A'' 1 0 0)
   \<and> wins (mk_player ''A'' 1 0 0) + losses (mk_player ''A'' 1 0 0)
       + PlayerData.draws (mk_player ''A'' 1 0 0) < 1073741824
   \<and> total_of (mk_player ''A'' 1 0 0) = 2
   \<and> score_of (mk_player ''A'' 1 0 0) = total_of (mk_player ''A'' 1 0 0)
   \<and> ratio_of (mk_player ''A'' 1 0 0) = Fin 1
   \<and> eloDiff_of (mk_player ''A'' 1 0 0) = PInf
   \<and> playerCount (tournament [mk_player ''Z'' 0 0 0, mk_player ''A'' 1 0 0] 1 noSprt) = 2
   \<and> total_of (mk_player ''Z'' 0 0 0) \<le> 0
   \<and> printRanking (tournament [mk_player ''Z'' 0 0 0, mk_player ''A'' 1 0 0] 1 noSprt)
       = [EloDifference (eloDiff_of (mk_player ''A'' 1 0 0))]
   \<and> RankingRow 1 ''A'' (eloDiff_of (mk_player ''A'' 1 0 0)) 1 (Fin 100) (Fin 0)
         \<in> set (printRanking
               (tournament [mk_player ''A'' 1 0 0, mk_player ''B'' 0 1 0, mk_player ''C'' 0 0 0]
                  1 noSprt))
   \<and> 0 < total_of (mk_player ''B'' 0 1 0)
   \<and> score_of (mk_player ''B'' 0 1 0) = 0
   \<and> ratio_of (mk_player ''B'' 0 1 0) = Fin 0
   \<and> eloDiff_of (mk_player ''B'' 0 1 0) = NInf
   \<and> printRanking (tournament [mk_player ''B'' 0 1 0, mk_player ''A'' 1 0 0] 1 noSprt)
       = [EloDifference (eloDiff_of (mk_player ''B'' 0 1 0))]
   \<and> rankingLoop 2 [mk_player ''B'' 0 1 0, mk_player ''A'' 1 0 0] []
       = rankingLoop 2 [mk_player ''B'' 0 1 0] []"
  using printRanking_elo_at_ratio_0_and_1
    [where p = "mk_player ''A'' 1 0 0" and ps = "[mk_player ''Z'' 0 0 0]" and qs = "[]"
       and t = "tournament [mk_player ''Z'' 0 0 0, mk_player ''A'' 1 0 0] 1 noSprt"
       and t' = "tournament [mk_player ''A'' 1 0 0, mk_player ''B'' 0 1 0, mk_player ''C'' 0 0 0]
                   1 noSprt"]
    printRanking_elo_at_ratio_0_and_1
    [where p = "mk_player ''B'' 0 1 0" and ps = "[]" and qs = "[mk_player ''A'' 1 0 0]"
       and t = "tournament [mk_player ''B'' 0 1 0, mk_player ''A'' 1 0 0] 1 noSprt"
       and t' = "tournament [mk_player ''A'' 1 0 0, mk_player ''B'' 0 1 0, mk_player ''C'' 0 0 0]
                   1 noSprt"]
  by (simp add: printRanking_def playerCount_def example_defs loop_defs sprtLines_def
        signed_divide_int_def)

text \<open>
  The claim as the specification words it fails: after one game that A has won against B,
  A has the ratio 1 and B the ratio 0, and what is printed is the value of the formula,
  not a guarded result.
\<close>

theorem printRanking_elo_unguarded_counterexample:
  "0 < total_of (mk_player ''A'' 1 0 0)
   \<and> ratio_of (mk_player ''A'' 1 0 0) = Fin 1
   \<and> printRanking (tournament [mk_player ''A'' 1 0 0, mk_player ''B'' 0 1 0] 1 noSprt)
       = [EloDifference PInf]
   \<and> 0 < total_of (mk_player ''B'' 0 1 0)
   \<and> ratio_of (mk_player ''B'' 0 1 0) = Fin 0
   \<and> printRanking
         (tournament [mk_player ''A'' 1 0 0, mk_player ''B'' 0 1 0, mk_player ''C'' 0 0 0] 1 noSprt)
       = [RankingHeader,
          RankingRow 1 ''A'' PInf 1 (Fin 100) (Fin 0),
          RankingRow 2 ''B'' NInf 1 (Fin 0) (Fin 0)]"
  by (simp add: printRanking_def playerCount_def example_defs loop_defs sprtLines_def
        signed_divide_int_def)

section \<open>The order of the ranking rows\<close>

lemma tableRows_append: "tableRows (xs @ ys) = tableRows xs @ tableRows ys"
  by (induction xs rule: tableRows.induct) simp_all

lemma tableRows_rankingRows: "tableRows (rankingRows k m) = map row_of_entry m"
  by (induction k m rule: rankingRows.induct) (simp_all add: row_of_entry_def)

lemma tableRows_sprtLines: "tableRows (sprtLines st) = []"
  by (simp add: sprtLines_def)

lemma tableRows_rankingLoop: "tableRows (fst (rankingLoop n ps ranking)) = []"
  using rankingLoop_lines [of n ps ranking] by auto

lemma tableRows_printRanking:
  "tableRows (printRanking t)
     = map row_of_entry (snd (rankingLoop (playerCount t) (players t) []))"
proof -
  obtain ls rk where loop: "rankingLoop (playerCount t) (players t) [] = (ls, rk)"
    by (cases "rankingLoop (playerCount t) (players t) []")
  from tableRows_rankingLoop [of "playerCount t" "players t" "[]"] loop
  have "tableRows ls = []" by simp
  with loop show ?thesis
    by (simp add: printRanking_def tableRows_append tableRows_rankingRows tableRows_sprtLines)
qed

lemma qless_qneg: "qless (qneg a) (qneg b) = qless b a"
  by (cases a; cases b) simp_all

lemma qless_asym: "qless a b \<Longrightarrow> \<not> qless b a"
  by (cases a; cases b) simp_all

lemma qless_negtrans:
  "b \<noteq> NaN \<Longrightarrow> \<not> qless a b \<Longrightarrow> \<not> qless b c \<Longrightarrow> \<not> qless a c"
  by (cases a; cases b; cases c) simp_all

lemma qless_trans: "qless a b \<Longrightarrow> qless b c \<Longrightarrow> qless a c"
  by (cases a; cases b; cases c) simp_all

lemma eloDiff_not_NaN:
  assumes "0 \<le> wins p" "0 \<le> losses p" "0 \<le> PlayerData.draws p"
    and "wins p + losses p + PlayerData.draws p < 1073741824" and "0 < total_of p"
  shows "eloDiff_of p \<noteq> NaN"
proof (cases "score_of p = 0")
  case True
  with assms(5) have "eloDiff_of p = NInf" by (simp add: ratio_0 eloDiff_ratio_0)
  then show ?thesis by simp
next
  case False
  define r where "r = real_of_int (score_of p) / real_of_int (total_of p)"
  from assms(1-4) have "total_of p = (wins p + losses p + PlayerData.draws p) * 2"
    and "score_of p = wins p * 2 + PlayerData.draws p"
    by (rule no_overflow)+
  with assms(1-3) False have "0 < score_of p" "score_of p \<le> total_of p"
    by simp_all
  with assms(5) have r: "0 < r" "r \<le> 1" by (simp_all add: r_def)
  from assms(5) have ratio: "ratio_of p = Fin r"
    by (simp add: ratio_of_def qreal_of_int_def r_def)
  from r have "0 \<le> 1 / r - 1" by (simp add: field_simps)
  with r ratio show ?thesis by (simp add: eloDiff_of_def)
qed

lemma ascending_insertMulti:
  "k \<noteq> NaN \<Longrightarrow> \<forall>e \<in> set m. fst e \<noteq> NaN \<Longrightarrow> ascending m \<Longrightarrow> ascending (insertMulti k v m)"
proof (induction k v m rule: insertMulti.induct)
  case (1 k v)
  show ?case by (simp add: ascending_def)
next
  case (2 k v k' v' m)
  show ?case
  proof (cases "qless k' k")
    case True
    from "2.prems" have asc: "ascending m" and nn: "\<forall>e \<in> set m. fst e \<noteq> NaN"
      and later: "\<forall>e \<in> set m. \<not> qless (fst e) k'"
      by (simp_all add: ascending_def)
    from "2.IH" [OF True "2.prems"(1) nn asc] have "ascending (insertMulti k v m)" .
    moreover from True have "\<not> qless k k'" by (rule qless_asym)
    ultimately show ?thesis using True later
      by (auto simp: ascending_def set_insertMulti)
  next
    case False
    from "2.prems" have k': "k' \<noteq> NaN" by simp
    have "\<not> qless (fst e) k" if "e \<in> set m" for e
    proof -
      from that "2.prems"(3) have "\<not> qless (fst e) k'" by (auto simp: ascending_def)
      from qless_negtrans [OF k' this False] show ?thesis .
    qed
    with False "2.prems"(3) show ?thesis by (auto simp: ascending_def)
  qed
qed

lemma rankingLoop_ascending:
  assumes "\<forall>p \<in> set ps. 0 \<le> wins p \<and> 0 \<le> losses p \<and> 0 \<le> PlayerData.draws p
      \<and> wins p + losses p + PlayerData.draws p < 1073741824"
    and "\<forall>e \<in> set ranking. fst e \<noteq> NaN" and "ascending ranking"
  shows "ascending (snd (rankingLoop n ps ranking))"
  using assms
proof (induction ps arbitrary: ranking)
  case Nil
  then show ?case by simp
next
  case (Cons p ps)
  show ?case
  proof (cases "total_of p \<le> 0 \<or> n = 2")
    case True
    with Cons show ?thesis by auto
  next
    case False
    let ?rk = "insertMulti (qneg (eloDiff_of p)) (data_of p) ranking"
    from False Cons.prems(1) have "eloDiff_of p \<noteq> NaN" by (simp add: eloDiff_not_NaN)
    then have key: "qneg (eloDiff_of p) \<noteq> NaN" by (cases "eloDiff_of p") simp_all
    with Cons.prems have "ascending ?rk" by (simp add: ascending_insertMulti)
    moreover from key Cons.prems(2) have "\<forall>e \<in> set ?rk. fst e \<noteq> NaN"
      by (simp add: set_insertMulti)
    moreover from Cons.prems(1)
    have "\<forall>p \<in> set ps. 0 \<le> wins p \<and> 0 \<le> losses p \<and> 0 \<le> PlayerData.draws p
      \<and> wins p + losses p + PlayerData.draws p < 1073741824" by simp
    ultimately have "ascending (snd (rankingLoop n ps ?rk))" by (intro Cons.IH)
    with False show ?thesis by simp
  qed
qed

lemma filter_key_insertMulti:
  "filter (\<lambda>e. fst e = k) (insertMulti k' v m)
     = (if k' = k then (k', v) # filter (\<lambda>e. fst e = k) m else filter (\<lambda>e. fst e = k) m)"
proof (induction k' v m rule: insertMulti.induct)
  case (1 k' v)
  show ?case by simp
next
  case (2 k' v k'' v'' m)
  show ?case
  proof (cases "qless k'' k'")
    case True
    then have "k'' \<noteq> k'" using qless_irrefl [of k'] by auto
    with True "2.IH" show ?thesis by auto
  next
    case False
    then show ?thesis by simp
  qed
qed

lemma filter_key_rankingLoop:
  "n \<noteq> 2 \<Longrightarrow>
   filter (\<lambda>e. fst e = k) (snd (rankingLoop n ps ranking))
     = rev (filter (\<lambda>e. fst e = k) (map entry_of (filter (\<lambda>p. 0 < total_of p) ps)))
       @ filter (\<lambda>e. fst e = k) ranking"
proof (induction ps arbitrary: ranking)
  case Nil
  show ?case by simp
next
  case (Cons p ps)
  show ?case
  proof (cases "total_of p \<le> 0")
    case True
    with Cons show ?thesis by simp
  next
    case False
    with Cons show ?thesis
      by (simp add: filter_key_insertMulti entry_of_def)
  qed
qed

text \<open>
  Claim C4, as the code has it. With more than two players, the table has one row for
  each player whose total, computed in 32 bits, is positive. Rows with the same Elo
  difference are in the reverse of the order of insertion, the player with the greatest
  index first, since \<^verbatim>\<open>QMultiMap::insert\<close> puts an item before the items that have its
  key. When the counters of every player count games and sum to less than \<open>2 ^ 30\<close>, so
  that nothing overflows, the rows are in the order of the Elo difference from the
  greatest down, but not strictly: no row has a smaller Elo difference than a row after
  it.
\<close>

theorem printRanking_rows_order:
  "(2 < playerCount t
    \<longrightarrow> filter (\<lambda>r. fst r = e) (tableRows (printRanking t))
          = rev (filter (\<lambda>r. fst r = e)
                   (map (\<lambda>p. row_of_entry (entry_of p))
                      (filter (\<lambda>p. 0 < total_of p) (players t)))))
   \<and> (2 < playerCount t
       \<and> (\<forall>p \<in> set (players t). 0 \<le> wins p \<and> 0 \<le> losses p \<and> 0 \<le> PlayerData.draws p
             \<and> wins p + losses p + PlayerData.draws p < 1073741824)
    \<longrightarrow> sorted_wrt (\<lambda>a b. \<not> qless (fst a) (fst b)) (tableRows (printRanking t)))"
proof (intro impI conjI)
  assume "2 < playerCount t"
  then have count: "playerCount t \<noteq> 2" by simp
  have key: "(fst (row_of_entry x) = e) = (fst x = qneg e)" for x :: "qreal \<times> RankingData"
    using qneg_qneg [of "fst x"] qneg_qneg [of e] by (auto simp: row_of_entry_def)
  from filter_key_rankingLoop [OF count, of "qneg e" "players t" "[]"]
  show "filter (\<lambda>r. fst r = e) (tableRows (printRanking t))
           = rev (filter (\<lambda>r. fst r = e)
                    (map (\<lambda>p. row_of_entry (entry_of p))
                       (filter (\<lambda>p. 0 < total_of p) (players t))))"
    by (simp add: tableRows_printRanking filter_map o_def key rev_map)
next
  assume a: "2 < playerCount t
       \<and> (\<forall>p \<in> set (players t). 0 \<le> wins p \<and> 0 \<le> losses p \<and> 0 \<le> PlayerData.draws p
             \<and> wins p + losses p + PlayerData.draws p < 1073741824)"
  let ?rk = "snd (rankingLoop (playerCount t) (players t) [])"
  from a have "ascending ?rk"
    by (intro rankingLoop_ascending) (simp_all add: ascending_def)
  then have "sorted_wrt (\<lambda>a b. \<not> qless (fst (row_of_entry a)) (fst (row_of_entry b))) ?rk"
    by (simp add: ascending_def row_of_entry_def qless_qneg)
  then show "sorted_wrt (\<lambda>a b. \<not> qless (fst a) (fst b)) (tableRows (printRanking t))"
    by (simp add: tableRows_printRanking sorted_wrt_map)
qed

theorem printRanking_rows_order_witness:
  "2 < playerCount
         (tournament [mk_player ''A'' 0 1 0, mk_player ''B'' 1 1 0, mk_player ''C'' 1 0 0,
                      mk_player ''D'' 1 1 0, mk_player ''E'' 0 0 0] 3 noSprt)
   \<and> 0 \<le> wins (mk_player ''A'' 0 1 0) \<and> 0 \<le> losses (mk_player ''A'' 0 1 0)
   \<and> 0 \<le> PlayerData.draws (mk_player ''A'' 0 1 0)
   \<and> wins (mk_player ''A'' 0 1 0) + losses (mk_player ''A'' 0 1 0)
       + PlayerData.draws (mk_player ''A'' 0 1 0) < 1073741824
   \<and> tableRows (printRanking
         (tournament [mk_player ''A'' 0 1 0, mk_player ''B'' 1 1 0, mk_player ''C'' 1 0 0,
                      mk_player ''D'' 1 1 0, mk_player ''E'' 0 0 0] 3 noSprt))
       = [(PInf, ''C'', 1, Fin 100, Fin 0), (Fin 0, ''D'', 2, Fin 50, Fin 0),
          (Fin 0, ''B'', 2, Fin 50, Fin 0), (NInf, ''A'', 1, Fin 0, Fin 0)]
   \<and> sorted_wrt (\<lambda>a b. \<not> qless (fst a) (fst b))
         (tableRows (printRanking
           (tournament [mk_player ''A'' 0 1 0, mk_player ''B'' 1 1 0, mk_player ''C'' 1 0 0,
                        mk_player ''D'' 1 1 0, mk_player ''E'' 0 0 0] 3 noSprt)))
   \<and> filter (\<lambda>r. fst r = Fin 0)
         (tableRows (printRanking
           (tournament [mk_player ''A'' 0 1 0, mk_player ''B'' 1 1 0, mk_player ''C'' 1 0 0,
                        mk_player ''D'' 1 1 0, mk_player ''E'' 0 0 0] 3 noSprt)))
       = rev [row_of_entry (entry_of (mk_player ''B'' 1 1 0)),
              row_of_entry (entry_of (mk_player ''D'' 1 1 0))]"
  using printRanking_rows_order
    [where t = "tournament [mk_player ''A'' 0 1 0, mk_player ''B'' 1 1 0, mk_player ''C'' 1 0 0,
                            mk_player ''D'' 1 1 0, mk_player ''E'' 0 0 0] 3 noSprt"
       and e = "Fin 0"]
  by (simp add: printRanking_def playerCount_def example_defs loop_defs entry_of_def
        row_of_entry_def sprtLines_def signed_divide_int_def)

text \<open>
  The claim as the specification words it fails when two players have the same Elo
  difference: three players with one win and one loss each have the Elo difference 0, so
  the rows are not strictly descending, and they come in the order C, B, A, the reverse of
  the order of insertion.
\<close>

theorem printRanking_rows_order_counterexample:
  "printRanking
     (tournament [mk_player ''A'' 1 1 0, mk_player ''B'' 1 1 0, mk_player ''C'' 1 1 0] 3 noSprt)
     = [RankingHeader,
        RankingRow 1 ''C'' (Fin 0) 2 (Fin 50) (Fin 0),
        RankingRow 2 ''B'' (Fin 0) 2 (Fin 50) (Fin 0),
        RankingRow 3 ''A'' (Fin 0) 2 (Fin 50) (Fin 0)]
   \<and> \<not> sorted_wrt (\<lambda>a b. qless (fst b) (fst a))
         (tableRows (printRanking
           (tournament [mk_player ''A'' 1 1 0, mk_player ''B'' 1 1 0, mk_player ''C'' 1 1 0]
              3 noSprt)))
   \<and> map (\<lambda>r. fst (snd r))
         (tableRows (printRanking
           (tournament [mk_player ''A'' 1 1 0, mk_player ''B'' 1 1 0, mk_player ''C'' 1 1 0]
              3 noSprt)))
       \<noteq> map builder_name [mk_player ''A'' 1 1 0, mk_player ''B'' 1 1 0, mk_player ''C'' 1 1 0]"
  by (simp add: printRanking_def playerCount_def example_defs loop_defs sprtLines_def
        signed_divide_int_def)

section \<open>The cache of opening books\<close>

lemma addOpeningBook_cached:
  "m_books m f = Some b \<Longrightarrow> f \<noteq> [] \<Longrightarrow> addOpeningBook rd f m w = (Some b, m, w)"
  by (simp add: addOpeningBook_def)

lemma addOpeningBook_keeps:
  "m_books m f = Some b \<Longrightarrow> addOpeningBook rd g m w = (h, m', w') \<Longrightarrow> m_books m' f = Some b"
  by (auto simp: addOpeningBook_def Let_def split: if_splits option.splits)

lemma addOpeningBooks_keeps:
  "m_books m f = Some b \<Longrightarrow> addOpeningBooks calls m w = (m', w') \<Longrightarrow> m_books m' f = Some b"
proof (induction calls arbitrary: m w)
  case Nil
  then show ?case by simp
next
  case (Cons c calls)
  obtain rd g where c: "c = (rd, g)" by (cases c)
  obtain h m1 w1 where step: "addOpeningBook rd g m w = (h, m1, w1)"
    by (cases "addOpeningBook rd g m w")
  from Cons.prems(1) step have "m_books m1 f = Some b" by (rule addOpeningBook_keeps)
  moreover from Cons.prems(2) c step have "addOpeningBooks calls m1 w1 = (m', w')" by simp
  ultimately show ?case by (rule Cons.IH)
qed

lemma addOpeningBook_Some:
  "addOpeningBook rd f m w = (Some b, m', w') \<Longrightarrow> f \<noteq> [] \<and> m_books m' f = Some b"
  by (auto simp: addOpeningBook_def Let_def split: if_splits option.splits)

lemma addOpeningBook_None:
  "f \<noteq> [] \<Longrightarrow> addOpeningBook rd f m w = (None, m', w')
     \<Longrightarrow> m' = m \<and> m_books m f = None \<and> \<not> rd f
         \<and> book_events w' = book_events w @ [ReadFile f, CantRead f]"
  by (auto simp: addOpeningBook_def Let_def split: if_splits option.splits)

text \<open>
  Claim C2, as the code has it. For every file name and every sequence of calls of
  \<^verbatim>\<open>addOpeningBook\<close>: once a call has loaded the file, every later call with that name
  returns the same book and changes nothing, so the file is not read again, whether or not
  it can still be read. A load that fails is not cached: the call reads the file, reports
  the failure and leaves the match as it was, and the next call with that name reads the
  file again; it reports the failure again when the read fails again, and returns a new
  book when the file can now be read.
\<close>

theorem addOpeningBook_caches_successful_loads_only:
  "(addOpeningBook rd f m w = (Some b, m1, w1) \<and> addOpeningBooks calls m1 w1 = (m2, w2)
      \<longrightarrow> addOpeningBook rd' f m2 w2 = (Some b, m2, w2))
   \<and> (f' \<noteq> [] \<and> addOpeningBook rd f' m w = (None, m1', w1')
      \<longrightarrow> m1' = m
          \<and> book_events w1' = book_events w @ [ReadFile f', CantRead f']
          \<and> fst (addOpeningBook rd' f' m1' w1') = (if rd' f' then Some (next_book w1') else None)
          \<and> book_events (snd (snd (addOpeningBook rd' f' m1' w1')))
              = book_events w1' @ (if rd' f' then [ReadFile f'] else [ReadFile f', CantRead f']))"
proof (intro conjI impI)
  assume a: "addOpeningBook rd f m w = (Some b, m1, w1) \<and> addOpeningBooks calls m1 w1 = (m2, w2)"
  then have f: "f \<noteq> []" and "m_books m1 f = Some b" by (auto dest: addOpeningBook_Some)
  with a have "m_books m2 f = Some b" by (auto dest: addOpeningBooks_keeps)
  with f show "addOpeningBook rd' f m2 w2 = (Some b, m2, w2)" by (simp add: addOpeningBook_cached)
next
  assume a: "f' \<noteq> [] \<and> addOpeningBook rd f' m w = (None, m1', w1')"
  then have n: "m1' = m \<and> m_books m f' = None \<and> \<not> rd f'
         \<and> book_events w1' = book_events w @ [ReadFile f', CantRead f']"
    by (auto dest: addOpeningBook_None)
  then show "m1' = m" "book_events w1' = book_events w @ [ReadFile f', CantRead f']" by simp_all
  from a n show "fst (addOpeningBook rd' f' m1' w1') = (if rd' f' then Some (next_book w1') else None)"
    by (simp add: addOpeningBook_def Let_def)
  from a n show "book_events (snd (snd (addOpeningBook rd' f' m1' w1')))
              = book_events w1' @ (if rd' f' then [ReadFile f'] else [ReadFile f', CantRead f'])"
    by (simp add: addOpeningBook_def Let_def)
qed

theorem addOpeningBook_caches_successful_loads_only_witness:
  "addOpeningBook (\<lambda>f. f = ''book.bin'') ''book.bin'' EngineMatch_init World_init
     = (Some 1, EngineMatch_init\<lparr> m_books := [''book.bin'' \<mapsto> 1] \<rparr>,
        \<lparr> next_book = 2, book_events = [ReadFile ''book.bin''] \<rparr>)
   \<and> addOpeningBooks [(\<lambda>f. False, ''other.bin''), (\<lambda>f. False, ''book.bin'')]
         (EngineMatch_init\<lparr> m_books := [''book.bin'' \<mapsto> 1] \<rparr>)
         \<lparr> next_book = 2, book_events = [ReadFile ''book.bin''] \<rparr>
       = (EngineMatch_init\<lparr> m_books := [''book.bin'' \<mapsto> 1] \<rparr>,
          \<lparr> next_book = 3,
            book_events = [ReadFile ''book.bin'', ReadFile ''other.bin'', CantRead ''other.bin''] \<rparr>)
   \<and> addOpeningBook (\<lambda>f. False) ''book.bin''
         (EngineMatch_init\<lparr> m_books := [''book.bin'' \<mapsto> 1] \<rparr>)
         \<lparr> next_book = 3,
           book_events = [ReadFile ''book.bin'', ReadFile ''other.bin'', CantRead ''other.bin''] \<rparr>
       = (Some 1, EngineMatch_init\<lparr> m_books := [''book.bin'' \<mapsto> 1] \<rparr>,
          \<lparr> next_book = 3,
            book_events = [ReadFile ''book.bin'', ReadFile ''other.bin'', CantRead ''other.bin''] \<rparr>)
   \<and> addOpeningBook (\<lambda>f. f = ''book.bin'') ''missing.bin'' EngineMatch_init World_init
       = (None, EngineMatch_init,
          \<lparr> next_book = 2, book_events = [ReadFile ''missing.bin'', CantRead ''missing.bin''] \<rparr>)
   \<and> book_events (snd (snd (addOpeningBook (\<lambda>f. False) ''missing.bin'' EngineMatch_init
         \<lparr> next_book = 2, book_events = [ReadFile ''missing.bin'', CantRead ''missing.bin''] \<rparr>)))
       = [ReadFile ''missing.bin'', CantRead ''missing.bin'',
          ReadFile ''missing.bin'', CantRead ''missing.bin'']"
  using addOpeningBook_caches_successful_loads_only
    [where rd = "\<lambda>f. f = ''book.bin''" and f = "''book.bin''" and m = EngineMatch_init
       and w = World_init and b = 1
       and ?m1.0 = "EngineMatch_init\<lparr> m_books := [''book.bin'' \<mapsto> 1] \<rparr>"
       and ?w1.0 = "\<lparr> next_book = 2, book_events = [ReadFile ''book.bin''] \<rparr>"
       and calls = "[(\<lambda>f. False, ''other.bin''), (\<lambda>f. False, ''book.bin'')]"
       and ?m2.0 = "EngineMatch_init\<lparr> m_books := [''book.bin'' \<mapsto> 1] \<rparr>"
       and ?w2.0 = "\<lparr> next_book = 3,
            book_events = [ReadFile ''book.bin'', ReadFile ''other.bin'', CantRead ''other.bin''] \<rparr>"
       and rd' = "\<lambda>f. False" and f' = "''missing.bin''"
       and ?m1' = EngineMatch_init
       and ?w1' = "\<lparr> next_book = 2,
            book_events = [ReadFile ''missing.bin'', CantRead ''missing.bin''] \<rparr>"]
  by (simp add: addOpeningBook_def EngineMatch_init_def World_init_def)

text \<open>
  The claim as the specification words it fails for a file that cannot be read: two calls
  with its name read the file twice and report the failure twice.
\<close>

theorem addOpeningBook_failure_not_cached_counterexample:
  "book_events (snd (addOpeningBooks [(\<lambda>f. False, ''book.bin''), (\<lambda>f. False, ''book.bin'')]
       EngineMatch_init World_init))
     = [ReadFile ''book.bin'', CantRead ''book.bin'', ReadFile ''book.bin'', CantRead ''book.bin'']"
  by (simp add: addOpeningBook_def EngineMatch_init_def World_init_def)

section \<open>When the ranking is printed\<close>

lemma smod_dvd:
  "0 < r \<Longrightarrow> (int k smod r = 0) = (r dvd int k)"
  by (simp add: signed_modulo_int_def sgn_if dvd_eq_mod_eq_0)

lemma count_onGameFinished:
  "0 \<le> m_ratingInterval m \<Longrightarrow>
   length (filter isRanking (onGameFinished m (t\<lparr> finishedGameCount := int k \<rparr>) g number))
     = (if m_ratingInterval m \<noteq> 0 \<and> m_ratingInterval m dvd int k then 1 else 0)"
  using smod_dvd [of "m_ratingInterval m" k]
  by (cases "m_ratingInterval m = 0") (simp_all add: onGameFinished_def Let_def)

lemma count_onTournamentFinished:
  "0 \<le> m_ratingInterval m \<Longrightarrow>
   length (filter isRanking (onTournamentFinished m (t\<lparr> finishedGameCount := int n \<rparr>)))
     = (if m_ratingInterval m = 0 \<or> \<not> m_ratingInterval m dvd int n then 1 else 0)"
  using smod_dvd [of "m_ratingInterval m" n]
  by (cases "m_ratingInterval m = 0") (simp_all add: onTournamentFinished_def)

text \<open>
  Claim C3. Let the rating interval \<open>r\<close> be set by \<^verbatim>\<open>setRatingInterval\<close>, and let \<open>n\<close> games
  finish. The slot \<^verbatim>\<open>onGameFinished\<close> of the \<open>k\<close>-th finished game calls \<^verbatim>\<open>printRanking\<close>
  once when \<open>r > 0\<close> and \<open>k\<close> is a multiple of \<open>r\<close>, and not otherwise;
  \<^verbatim>\<open>onTournamentFinished\<close> calls it once when \<open>r = 0\<close> or \<open>n\<close> is not a multiple of \<open>r\<close>, and
  not otherwise. With \<open>r = 5\<close> and \<open>n = 12\<close> the ranking is printed after the games 5 and 10
  and at the end of the match.
\<close>

theorem ranking_printed_every_interval:
  "setRatingInterval r m0 = Some m \<longrightarrow>
     map (\<lambda>outs. length (filter isRanking outs)) (runTournament m snap game n)
       = map (\<lambda>k. if r \<noteq> 0 \<and> r dvd int k then 1 else 0) [1..<Suc n]
         @ [if r = 0 \<or> \<not> r dvd int n then 1 else 0]"
proof
  assume "setRatingInterval r m0 = Some m"
  then have r: "m_ratingInterval m = r" "0 \<le> m_ratingInterval m"
    by (auto simp: setRatingInterval_def split: if_splits)
  from r(2) show "map (\<lambda>outs. length (filter isRanking outs)) (runTournament m snap game n)
       = map (\<lambda>k. if r \<noteq> 0 \<and> r dvd int k then 1 else 0) [1..<Suc n]
         @ [if r = 0 \<or> \<not> r dvd int n then 1 else 0]"
    unfolding runTournament_def map_append map_map o_def list.map
    by (simp only: count_onGameFinished count_onTournamentFinished r(1))
qed

theorem ranking_printed_every_interval_witness:
  "setRatingInterval 5 EngineMatch_init = Some (EngineMatch_init\<lparr> m_ratingInterval := 5 \<rparr>)
   \<and> map (\<lambda>outs. length (filter isRanking outs))
         (runTournament (EngineMatch_init\<lparr> m_ratingInterval := 5 \<rparr>)
            (\<lambda>k. tournament [mk_player ''A'' 0 0 (int k), mk_player ''B'' 0 0 (int k)] 0 noSprt)
            game_AB 12)
       = [0, 0, 0, 0, 1, 0, 0, 0, 0, 1, 0, 0, 1]"
  using ranking_printed_every_interval
    [where r = 5 and ?m0.0 = EngineMatch_init and m = "EngineMatch_init\<lparr> m_ratingInterval := 5 \<rparr>"
       and snap = "\<lambda>k. tournament [mk_player ''A'' 0 0 (int k), mk_player ''B'' 0 0 (int k)] 0 noSprt"
       and game = game_AB and n = 12]
  by (simp add: setRatingInterval_def upt_rec)

section \<open>The verdict of the sequential test\<close>

lemma sprt_update_sticky: "verdict s \<noteq> Continue \<Longrightarrow> verdict (sprt_update d s) = verdict s"
  by (simp add: sprt_update_def Let_def)

text \<open>
  Claim C7. For every sequence of updates of the sequential test: once the verdict is
  \<open>AcceptH0\<close> or \<open>AcceptH1\<close>, it is the same after the updates; it neither goes back to
  \<open>Continue\<close> nor changes to the other verdict, wherever the later games move \<open>llr\<close>.
\<close>

theorem sprt_verdict_sticky:
  "verdict s = AcceptH0 \<or> verdict s = AcceptH1 \<longrightarrow> verdict (sprt_updates ds s) = verdict s"
proof (induction ds arbitrary: s)
  case Nil
  show ?case by simp
next
  case (Cons d ds)
  show ?case
  proof
    assume a: "verdict s = AcceptH0 \<or> verdict s = AcceptH1"
    then have "verdict (sprt_update d s) = verdict s" by (auto simp: sprt_update_sticky)
    with a Cons.IH [of "sprt_update d s"] show "verdict (sprt_updates (d # ds) s) = verdict s"
      by auto
  qed
qed

theorem sprt_verdict_sticky_witness:
  "verdict (sprt_updates [3 / 2, 3 / 2]
       \<lparr> st_llr = 0, lowerBound = - 2, upperBound = 2, verdict = Continue \<rparr>) = AcceptH1
   \<and> verdict (sprt_updates [- 4, - 4]
         (sprt_updates [3 / 2, 3 / 2]
            \<lparr> st_llr = 0, lowerBound = - 2, upperBound = 2, verdict = Continue \<rparr>)) = AcceptH1"
  using sprt_verdict_sticky
    [where s = "sprt_updates [3 / 2, 3 / 2]
                  \<lparr> st_llr = 0, lowerBound = - 2, upperBound = 2, verdict = Continue \<rparr>"
       and ds = "[- 4, - 4]"]
  by (simp add: sprt_update_def Let_def)

end
